theory Spec2Isabelle
  imports Main
begin

section \<open>Text and character classes\<close>

text \<open>
  A Python \<open>str\<close> is a sequence of code points; it is modelled as \<open>string\<close>, one
  \<open>char\<close> per code point, which covers the code points 0 to 255. A text that may be
  \<open>None\<close> is a \<open>string option\<close>.

  In that range \<open>\d\<close> matches the ten ASCII digits, and \<open>\s\<close> matches the ASCII
  whitespace, the separators 0x1C to 0x1F, NEL (0x85) and the no-break space (0xA0).
\<close>

definition is_digit :: "char \<Rightarrow> bool" where
  "is_digit c = (c \<in> set ''0123456789'')"

definition is_space :: "char \<Rightarrow> bool" where
  "is_space c = (c \<in> set [CHR 0x09, CHR 0x0A, CHR 0x0B, CHR 0x0C, CHR 0x0D,
                            CHR 0x1C, CHR 0x1D, CHR 0x1E, CHR 0x1F, CHR 0x20,
                            CHR 0x85, CHR 0xA0])"

definition is_alpha :: "char \<Rightarrow> bool" where
  "is_alpha c = (c \<in> set ''abcdefghijklmnopqrstuvwxyzABCDEFGHIJKLMNOPQRSTUVWXYZ'')"

text \<open>Case folding of the ASCII letters, for \<open>re.IGNORECASE\<close>.\<close>

definition lower :: "char \<Rightarrow> char" where
  "lower c = (case map_of (zip ''ABCDEFGHIJKLMNOPQRSTUVWXYZ'' ''abcdefghijklmnopqrstuvwxyz'') c of
                None \<Rightarrow> c | Some d \<Rightarrow> d)"

definition upper :: "char \<Rightarrow> char" where
  "upper c = (case map_of (zip ''abcdefghijklmnopqrstuvwxyz'' ''ABCDEFGHIJKLMNOPQRSTUVWXYZ'') c of
                None \<Rightarrow> c | Some d \<Rightarrow> d)"

fun startswith :: "string \<Rightarrow> string \<Rightarrow> bool" where
  "startswith s [] = True"
| "startswith [] (p # ps) = False"
| "startswith (c # cs) (p # ps) = (c = p \<and> startswith cs ps)"


section \<open>Regular expressions, as the module \<open>re\<close> matches them\<close>

text \<open>
  The patterns of the program use literals, character classes, concatenation,
  alternation, an optional capturing group and greedy repetition of a character class.
  \<open>Rep p lo hi\<close> is the class \<open>p\<close> repeated at least \<open>lo\<close> and at most \<open>hi\<close> times
  (\<open>None\<close>: no upper bound). \<open>Grp n r\<close> is the capturing group number \<open>n\<close>.
\<close>

datatype regex =
    Lit string
  | Cls "char \<Rightarrow> bool"
  | Seq regex regex
  | Alt regex regex
  | Opt regex
  | Rep "char \<Rightarrow> bool" nat "nat option"
  | Grp nat regex

definition cat :: "regex list \<Rightarrow> regex" where
  "cat rs = foldr Seq rs (Lit [])"

type_synonym caps = "nat \<rightharpoonup> string"

definition chr_eq :: "bool \<Rightarrow> char \<Rightarrow> char \<Rightarrow> bool" where
  "chr_eq ci p c = (if ci then lower p = lower c else p = c)"

definition cls :: "bool \<Rightarrow> (char \<Rightarrow> bool) \<Rightarrow> char \<Rightarrow> bool" where
  "cls ci p c = (p c \<or> (ci \<and> (p (lower c) \<or> p (upper c))))"

fun lit :: "bool \<Rightarrow> string \<Rightarrow> string \<Rightarrow> string option" where
  "lit ci [] s = Some s"
| "lit ci (p # ps) [] = None"
| "lit ci (p # ps) (c # cs) = (if chr_eq ci p c then lit ci ps cs else None)"

text \<open>
  The matcher backtracks as \<open>re\<close> does: it tries the alternatives in priority order
  (left branch first, the longest repetition first, the optional part present first)
  and takes the first one for which the rest of the pattern, the continuation \<open>k\<close>,
  succeeds.
\<close>

fun rep :: "(char \<Rightarrow> bool) \<Rightarrow> nat \<Rightarrow> nat option \<Rightarrow> string \<Rightarrow> (string \<Rightarrow> 'r option) \<Rightarrow> 'r option" where
  "rep p lo hi [] k = (if lo = 0 then k [] else None)"
| "rep p lo hi (c # cs) k =
     (if p c \<and> hi \<noteq> Some 0 then
        (case rep p (lo - 1) (map_option (\<lambda>h. h - 1) hi) cs k of
           Some r \<Rightarrow> Some r
         | None \<Rightarrow> if lo = 0 then k (c # cs) else None)
      else if lo = 0 then k (c # cs) else None)"

fun bt :: "bool \<Rightarrow> regex \<Rightarrow> string \<Rightarrow> caps \<Rightarrow> (string \<Rightarrow> caps \<Rightarrow> 'r option) \<Rightarrow> 'r option" where
  "bt ci (Lit l) s g k = (case lit ci l s of None \<Rightarrow> None | Some s' \<Rightarrow> k s' g)"
| "bt ci (Cls p) s g k = (case s of [] \<Rightarrow> None | c # cs \<Rightarrow> if cls ci p c then k cs g else None)"
| "bt ci (Seq a b) s g k = bt ci a s g (\<lambda>s' g'. bt ci b s' g' k)"
| "bt ci (Alt a b) s g k = (case bt ci a s g k of Some r \<Rightarrow> Some r | None \<Rightarrow> bt ci b s g k)"
| "bt ci (Opt a) s g k = (case bt ci a s g k of Some r \<Rightarrow> Some r | None \<Rightarrow> k s g)"
| "bt ci (Rep p lo hi) s g k = rep (cls ci p) lo hi s (\<lambda>s'. k s' g)"
| "bt ci (Grp n a) s g k =
     bt ci a s g (\<lambda>s' g'. k s' (g'(n \<mapsto> take (length s - length s') s)))"

text \<open>A match that starts at the head of \<open>s\<close>: the unread rest and the groups.\<close>

definition match_here :: "bool \<Rightarrow> regex \<Rightarrow> string \<Rightarrow> (string \<times> caps) option" where
  "match_here ci r s = bt ci r s Map.empty (\<lambda>s' g. Some (s', g))"

text \<open>
  \<open>re.search\<close>: the groups of the leftmost match, \<open>None\<close> when no position matches.
\<close>

fun search :: "bool \<Rightarrow> regex \<Rightarrow> string \<Rightarrow> caps option" where
  "search ci r [] = map_option snd (match_here ci r [])"
| "search ci r (c # cs) =
     (case match_here ci r (c # cs) of Some (s', g) \<Rightarrow> Some g | None \<Rightarrow> search ci r cs)"

text \<open>
  The successive non-overlapping matches, left to right: each one as the matched text
  and its groups. After a match the scan goes on where the match ended. The patterns of
  the program match no empty text (\<open>finditer_consuming\<close> below); were a match
  empty, the scan here would record it and go on one character further.
\<close>

function finditer :: "bool \<Rightarrow> regex \<Rightarrow> string \<Rightarrow> (string \<times> caps) list" where
  "finditer ci r s =
     (case match_here ci r s of
        Some (s', g) \<Rightarrow>
          (if length s' < length s
           then (take (length s - length s') s, g) # finditer ci r s'
           else ([], g) # (case s of [] \<Rightarrow> [] | c # cs \<Rightarrow> finditer ci r cs))
      | None \<Rightarrow> (case s of [] \<Rightarrow> [] | c # cs \<Rightarrow> finditer ci r cs))"
  by pat_completeness auto
termination
  by (relation "measure (\<lambda>(ci, r, s). length s)") auto

declare finditer.simps [simp del]

fun ngroups :: "regex \<Rightarrow> nat" where
  "ngroups (Lit l) = 0"
| "ngroups (Cls p) = 0"
| "ngroups (Seq a b) = ngroups a + ngroups b"
| "ngroups (Alt a b) = ngroups a + ngroups b"
| "ngroups (Opt a) = ngroups a"
| "ngroups (Rep p lo hi) = 0"
| "ngroups (Grp n a) = Suc (ngroups a)"

text \<open>
  \<open>re.findall\<close> gives, for each match, the matched text when the pattern has no group,
  the text of the group when it has one, and the tuple of the groups' texts when it
  has several; a group that took no part in the match reads as the empty string.
\<close>

datatype found = Str string | Tup "string list"

definition group :: "caps \<Rightarrow> nat \<Rightarrow> string" where
  "group g n = (case g n of None \<Rightarrow> [] | Some t \<Rightarrow> t)"

definition findall :: "bool \<Rightarrow> regex \<Rightarrow> string \<Rightarrow> found list" where
  "findall ci r s =
     map (\<lambda>(m, g). if ngroups r = 0 then Str m
                   else if ngroups r = 1 then Str (group g 1)
                   else Tup (map (group g) [1 ..< Suc (ngroups r)]))
         (finditer ci r s)"


section \<open>Phone extractor\<close>

text \<open>The three patterns of \<open>extract_phone_from_text\<close>, in the order of the list.\<close>

definition prefix_group :: regex where
  "prefix_group = Opt (Grp 1 (Alt (Lit ''+34'') (Lit ''0034'')))"

definition pattern_mobile :: regex where
  "pattern_mobile =
     cat [prefix_group, Rep is_space 0 None, Cls (\<lambda>c. c \<in> set ''6789''), Rep is_digit 2 (Some 2),
          Rep is_space 0 None, Rep is_digit 2 (Some 2),
          Rep is_space 0 None, Rep is_digit 2 (Some 2),
          Rep is_space 0 None, Rep is_digit 2 (Some 2)]"

definition pattern_landline :: regex where
  "pattern_landline =
     cat [prefix_group, Rep is_space 0 None, Lit ''9'', Rep is_digit 2 (Some 2),
          Rep is_space 0 None, Rep is_digit 2 (Some 2),
          Rep is_space 0 None, Rep is_digit 2 (Some 2),
          Rep is_space 0 None, Rep is_digit 2 (Some 2)]"

definition pattern_nine :: regex where
  "pattern_nine = cat [Cls (\<lambda>c. c \<in> set ''6789''), Rep is_digit 8 (Some 8)]"

definition patterns :: "regex list" where
  "patterns = [pattern_mobile, pattern_landline, pattern_nine]"

text \<open>\<open>phones\<close>: the finds of the three patterns, one pattern after the other.\<close>

definition phone_matches :: "string \<Rightarrow> found list" where
  "phone_matches text = concat (map (\<lambda>pattern. findall True pattern text) patterns)"

text \<open>
  One round of the cleaning loop up to the membership test: join a tuple, delete
  whitespace, hyphens and periods, and put the country prefix in front.
\<close>

definition normalize_phone :: "found \<Rightarrow> string" where
  "normalize_phone item =
     (let phone = (case item of Tup ts \<Rightarrow> concat ts | Str t \<Rightarrow> t);
          phone = filter (\<lambda>c. \<not> (is_space c \<or> c = CHR ''-'' \<or> c = CHR ''.'')) phone
      in if \<not> startswith phone ''+'' then
           if startswith phone ''0034'' then ''+34'' @ drop 4 phone
           else if startswith phone ''34'' then ''+'' @ phone
           else ''+34'' @ phone
         else phone)"

fun clean_loop :: "found list \<Rightarrow> string list \<Rightarrow> string list" where
  "clean_loop [] cleaned_phones = cleaned_phones"
| "clean_loop (item # items) cleaned_phones =
     (let phone = normalize_phone item
      in if phone \<notin> set cleaned_phones \<and> length phone \<ge> 11
         then clean_loop items (cleaned_phones @ [phone])
         else clean_loop items cleaned_phones)"

definition extract_phone_from_text :: "string option \<Rightarrow> string list" where
  "extract_phone_from_text text =
     (case text of
        None \<Rightarrow> []
      | Some t \<Rightarrow> if t = [] then [] else clean_loop (phone_matches t) [])"


section \<open>Email extractor\<close>

text \<open>
  \<open>list(set(xs))\<close> lists the distinct elements of \<open>xs\<close> in the iteration order of the
  set, which the program does not control. The order is a parameter here: the elements
  come sorted by an arbitrary key \<open>h\<close>, so that every order of the distinct elements
  arises for some \<open>h\<close>, and a statement for all \<open>h\<close> holds in whatever order Python
  iterates.
\<close>

definition list_of_set :: "('a \<Rightarrow> nat) \<Rightarrow> 'a list \<Rightarrow> 'a list" where
  "list_of_set h xs = sort_key h (remdups xs)"

definition pattern_email :: regex where
  "pattern_email =
     cat [Rep (\<lambda>c. is_alpha c \<or> is_digit c \<or> c \<in> set ''._%+-'') 1 None,
          Lit ''@'',
          Rep (\<lambda>c. is_alpha c \<or> is_digit c \<or> c \<in> set ''.-'') 1 None,
          Lit ''.'',
          Rep is_alpha 2 None]"

text \<open>The email pattern has no group, so \<open>re.findall\<close> gives the matched texts.\<close>

definition extract_email_from_text :: "(string \<Rightarrow> nat) \<Rightarrow> string option \<Rightarrow> string list" where
  "extract_email_from_text h text =
     (case text of
        None \<Rightarrow> []
      | Some t \<Rightarrow> if t = [] then []
                  else list_of_set h (map fst (finditer True pattern_email t)))"


section \<open>Search URL\<close>

text \<open>\<open>str\<close> of a Python integer: its decimal numeral, with a minus sign when negative.\<close>

definition digit_char :: "nat \<Rightarrow> char" where
  "digit_char d = ''0123456789'' ! d"

function str_nat :: "nat \<Rightarrow> string" where
  "str_nat n = (if n < 10 then [digit_char n] else str_nat (n div 10) @ [digit_char (n mod 10)])"
  by pat_completeness auto
termination
  by (relation "measure id") auto

declare str_nat.simps [simp del]

definition str_int :: "int \<Rightarrow> string" where
  "str_int i = (if i < 0 then CHR ''-'' # str_nat (nat (- i)) else str_nat (nat i))"

definition build_search_url :: "string \<Rightarrow> int \<Rightarrow> string" where
  "build_search_url base_url page =
     (if page \<le> 1 then base_url else base_url @ ''pagina-'' @ str_int page @ ''.htm'')"

text \<open>
  The number a string of decimal digits stands for, to say what \<open>pagina-N.htm\<close> means
  independently of \<open>str_int\<close>.
\<close>

definition digit_value :: "char \<Rightarrow> nat" where
  "digit_value c = (case map_of (zip ''0123456789'' [0, 1, 2, 3, 4, 5, 6, 7, 8, 9]) c of None \<Rightarrow> 0 | Some d \<Rightarrow> d)"

definition decimal_value :: "string \<Rightarrow> nat" where
  "decimal_value ds = foldl (\<lambda>acc c. 10 * acc + digit_value c) 0 ds"


section \<open>The web, the parsed pages and the log\<close>

text \<open>
  What the program reaches outside itself is a parameter. The state of the outside
  world (the remote site, the clock, the log) has an abstract type \<open>'w\<close>, and each
  effect takes the world and returns the new one. An exception is a value of type
  \<open>error\<close> that carries the text \<open>str(e)\<close>.
\<close>

datatype error = ValueError string | URLError string | HTTPError string | TimeoutError string
  | ParserError string

fun message :: "error \<Rightarrow> string" where
  "message (ValueError m) = m"
| "message (URLError m) = m"
| "message (HTTPError m) = m"
| "message (TimeoutError m) = m"
| "message (ParserError m) = m"

datatype level = INFO | ERROR

text \<open>
  A detail page as the program reads it from its soup: \<open>soup.get_text()\<close> and the
  \<open>get_text()\<close> of each element that the contact selector picks.
\<close>

record detail_page =
  get_text :: string
  contact_elements :: "string list"

text \<open>
  An \<open>article\<close> of the results page as the loop reads it: the stripped text of the first
  \<open>.item-extra-info, .item-subtitle\<close> element, the \<open>a.item-link\<close> element with its
  \<open>href\<close> attribute and stripped text, and the texts of the price and location
  elements; \<open>None\<close> where \<open>select_one\<close> finds nothing or the attribute is missing.
\<close>

record link =
  href :: "string option"
  link_text :: string

record article =
  extra_info :: "string option"
  title_el :: "link option"
  price_el :: "string option"
  location_el :: "string option"

text \<open>
  \<open>urlopen\<close> stands for building the request, opening it with the timeout, reading and
  decoding the body: the HTML text, or the exception raised on the way.
  \<open>detail_soup\<close> and \<open>search_soup\<close> stand for \<open>BeautifulSoup(html, "html.parser")\<close>
  with the selections made on it. \<open>set_order\<close> is the key of \<open>list_of_set\<close>.
\<close>

record 'w env =
  urlopen :: "string \<Rightarrow> 'w \<Rightarrow> (error + string) \<times> 'w"
  detail_soup :: "string \<Rightarrow> error + detail_page"
  search_soup :: "string \<Rightarrow> error + article list"
  urljoin :: "string \<Rightarrow> string \<Rightarrow> string"
  now_isoformat :: "'w \<Rightarrow> string"
  sleep :: "nat \<Rightarrow> 'w \<Rightarrow> 'w"
  logger :: "level \<Rightarrow> string \<Rightarrow> 'w \<Rightarrow> 'w"
  set_order :: "string \<Rightarrow> nat"


section \<open>Detail fetcher\<close>

record contacts =
  phones :: "string list"
  emails :: "string list"

text \<open>The body of the \<open>try\<close> block: the contacts, or the exception that leaves it.\<close>

definition detail_try :: "'w env \<Rightarrow> string \<Rightarrow> 'w \<Rightarrow> (error + contacts) \<times> 'w" where
  "detail_try env property_url w =
     (case urlopen env property_url w of
        (Inl e, w') \<Rightarrow> (Inl e, w')
      | (Inr html, w') \<Rightarrow>
          (case detail_soup env html of
             Inl e \<Rightarrow> (Inl e, w')
           | Inr soup \<Rightarrow>
               (let page_text = get_text soup;
                    found_phones = extract_phone_from_text (Some page_text);
                    found_emails = extract_email_from_text (set_order env) (Some page_text);
                    (found_phones, found_emails) =
                      foldl (\<lambda>(ps, es) elem_text.
                               (ps @ extract_phone_from_text (Some elem_text),
                                es @ extract_email_from_text (set_order env) (Some elem_text)))
                            (found_phones, found_emails) (contact_elements soup)
                in (Inr \<lparr>phones = list_of_set (set_order env) found_phones,
                         emails = list_of_set (set_order env) found_emails\<rparr>, w'))))"

definition scrape_property_detail :: "'w env \<Rightarrow> string \<Rightarrow> 'w \<Rightarrow> contacts \<times> 'w" where
  "scrape_property_detail env property_url w =
     (case detail_try env property_url w of
        (Inr found_contacts, w') \<Rightarrow> (found_contacts, w')
      | (Inl e, w') \<Rightarrow>
          (\<lparr>phones = [], emails = []\<rparr>,
           logger env ERROR (''Error scraping detail '' @ property_url @ '': '' @ message e) w'))"


section \<open>Listing fetcher\<close>

text \<open>
  A listing record; \<open>id_prop\<close> and \<open>emails_prop\<close> are the keys \<open>id\<close> and \<open>emails\<close> of the
  dictionary.
\<close>

record listing =
  id_prop :: "string option"
  titulo :: string
  precio :: string
  ubicacion :: string
  url :: string
  telefonos :: "string list"
  emails_prop :: "string list"
  fecha_scraping :: string

definition pattern_agency :: regex where
  "pattern_agency = Alt (Lit ''agencia'') (Lit ''inmobiliaria'')"

definition pattern_inmueble :: regex where
  "pattern_inmueble = cat [Lit ''/inmueble/'', Grp 1 (Rep is_digit 1 None), Lit ''/'']"

text \<open>The test that makes the loop skip an article as an agency's.\<close>

definition is_agency :: "article \<Rightarrow> bool" where
  "is_agency a =
     (case extra_info a of
        None \<Rightarrow> False
      | Some extra_text \<Rightarrow> search True pattern_agency extra_text \<noteq> None)"

text \<open>\<open>url_abs\<close>: the link's address, joined to the site when it does not start with http.\<close>

definition resolve_url :: "'w env \<Rightarrow> article \<Rightarrow> string option" where
  "resolve_url env a =
     (let url_rel = (case title_el a of None \<Rightarrow> None | Some t \<Rightarrow> href t)
      in case url_rel of
           None \<Rightarrow> None
         | Some u \<Rightarrow>
             if u \<noteq> [] \<and> \<not> startswith u ''http''
             then Some (urljoin env ''https://www.idealista.com'' u)
             else Some u)"

text \<open>
  The rest of a round, for an article that has an address: read the identifier, fetch
  the contacts, add a record when there is a phone or an email, then sleep.
\<close>

definition visit :: "'w env \<Rightarrow> article \<Rightarrow> string \<Rightarrow> listing list \<Rightarrow> 'w \<Rightarrow> listing list \<times> 'w" where
  "visit env a url_abs properties w =
     (let prop_id = map_option (\<lambda>g. group g 1) (search False pattern_inmueble url_abs);
          w = logger env INFO
                (''Scraping contacts for property ''
                   @ (case prop_id of None \<Rightarrow> ''None'' | Some i \<Rightarrow> i) @ ''...'') w;
          (found_contacts, w) = scrape_property_detail env url_abs w;
          properties =
            (if phones found_contacts \<noteq> [] \<or> emails found_contacts \<noteq> []
             then properties @
               [\<lparr>id_prop = prop_id,
                 titulo = (case title_el a of None \<Rightarrow> [] | Some t \<Rightarrow> link_text t),
                 precio = (case price_el a of None \<Rightarrow> [] | Some t \<Rightarrow> t),
                 ubicacion = (case location_el a of None \<Rightarrow> [] | Some t \<Rightarrow> t),
                 url = url_abs,
                 telefonos = phones found_contacts,
                 emails_prop = emails found_contacts,
                 fecha_scraping = now_isoformat env w\<rparr>]
             else properties)
      in (properties, sleep env 2 w))"

fun scrape_loop :: "'w env \<Rightarrow> int \<Rightarrow> article list \<Rightarrow> listing list \<Rightarrow> 'w \<Rightarrow> listing list \<times> 'w" where
  "scrape_loop env max_properties [] properties w = (properties, w)"
| "scrape_loop env max_properties (a # articles) properties w =
     (if int (length properties) \<ge> max_properties then (properties, w)
      else if is_agency a then scrape_loop env max_properties articles properties w
      else case resolve_url env a of
             None \<Rightarrow> scrape_loop env max_properties articles properties w
           | Some url_abs \<Rightarrow>
               if url_abs = [] then scrape_loop env max_properties articles properties w
               else (case visit env a url_abs properties w of
                       (properties', w') \<Rightarrow> scrape_loop env max_properties articles properties' w'))"

definition scrape_idealista_contacts ::
  "'w env \<Rightarrow> string \<Rightarrow> int \<Rightarrow> int \<Rightarrow> 'w \<Rightarrow> (error + listing list) \<times> 'w" where
  "scrape_idealista_contacts env base_url page max_properties w =
     (let search_url = build_search_url base_url page
      in case urlopen env search_url w of
           (Inl e, w') \<Rightarrow> (Inl e, w')
         | (Inr html, w') \<Rightarrow>
             (case search_soup env html of
                Inl e \<Rightarrow> (Inl e, w')
              | Inr articles \<Rightarrow>
                  (case scrape_loop env max_properties articles [] w' of
                     (properties, w'') \<Rightarrow>
                       (Inr properties,
                        logger env INFO
                          (''Encontradas '' @ str_int (int (length properties))
                             @ '' propiedades con contactos'') w''))))"


section \<open>The words of the specification\<close>

text \<open>Each element once, at the place where it is seen first.\<close>

fun first_seen :: "'a list \<Rightarrow> 'a list" where
  "first_seen [] = []"
| "first_seen (x # xs) = x # first_seen (removeAll x xs)"

text \<open>The text contains the word, letter case aside.\<close>

definition contains_ci :: "string \<Rightarrow> string \<Rightarrow> bool" where
  "contains_ci word text = (\<exists>pre post. map lower text = pre @ map lower word @ post)"


text \<open>The least number of characters that a match of a pattern reads.\<close>

fun min_len :: "regex \<Rightarrow> nat" where
  "min_len (Lit l) = length l"
| "min_len (Cls p) = 1"
| "min_len (Seq a b) = min_len a + min_len b"
| "min_len (Alt a b) = min (min_len a) (min_len b)"
| "min_len (Opt a) = 0"
| "min_len (Rep p lo hi) = lo"
| "min_len (Grp n a) = min_len a"


section \<open>A small web, for examples\<close>

text \<open>
  The world is the log. The results page lists an agency's flat, a private flat whose
  detail page shows a phone, and a private flat whose detail page cannot be fetched.
\<close>

type_synonym demo_world = "(level \<times> string) list"

definition demo_agency :: article where
  "demo_agency = \<lparr>extra_info = Some ''Inmobiliaria XYZ'',
                   title_el = Some \<lparr>href = Some ''/inmueble/1/'', link_text = ''Piso A''\<rparr>,
                   price_el = Some ''100.000'', location_el = None\<rparr>"

definition demo_private :: article where
  "demo_private = \<lparr>extra_info = None,
                    title_el = Some \<lparr>href = Some ''/inmueble/1/'', link_text = ''Piso B''\<rparr>,
                    price_el = Some ''90.000'', location_el = Some ''Centro''\<rparr>"

definition demo_unreachable :: article where
  "demo_unreachable = \<lparr>extra_info = Some ''Particular'',
                        title_el = Some \<lparr>href = Some ''/inmueble/2/'', link_text = ''Piso C''\<rparr>,
                        price_el = None, location_el = None\<rparr>"

definition demo_env :: "demo_world env" where
  "demo_env =
     \<lparr>urlopen = (\<lambda>u w.
         (if u = ''https://x/y/'' then Inr ''results''
          else if u = ''https://www.idealista.com/inmueble/1/'' then Inr ''detail''
          else Inl (URLError ''timed out''), w)),
      detail_soup = (\<lambda>html.
         if html = ''detail''
         then Inr \<lparr>get_text = ''Tel 612345678'', contact_elements = [''612345678'']\<rparr>
         else Inl (ParserError ''bad markup'')),
      search_soup = (\<lambda>html.
         if html = ''results'' then Inr [demo_agency, demo_private, demo_unreachable]
         else Inl (ParserError ''bad markup'')),
      urljoin = (\<lambda>base rel. base @ rel),
      now_isoformat = (\<lambda>w. ''2024-01-01T00:00:00''),
      sleep = (\<lambda>n w. w),
      logger = (\<lambda>l m w. w @ [(l, m)]),
      set_order = (\<lambda>s. 0)\<rparr>"


section \<open>Properties of the extractors\<close>

lemma set_first_seen: "set (first_seen xs) = set xs"
  by (induction xs rule: first_seen.induct) auto

lemma distinct_first_seen: "distinct (first_seen xs)"
  by (induction xs rule: first_seen.induct) (auto simp: set_first_seen)

lemma distinct_list_of_set: "distinct (list_of_set h xs)"
  by (simp add: list_of_set_def)

lemma set_list_of_set: "set (list_of_set h xs) = set xs"
  by (simp add: list_of_set_def)

lemma set_clean_loop:
  "set (clean_loop items acc) = set acc \<union> {p \<in> normalize_phone ` set items. 11 \<le> length p}"
  by (induction items arbitrary: acc) (auto simp: Let_def)

lemma removeAll_filter_seen:
  "removeAll p (filter (\<lambda>q. q \<notin> set acc \<and> L q) xs) = filter (\<lambda>q. q \<notin> set (acc @ [p]) \<and> L q) xs"
  by (induction xs) auto

text \<open>
  The cleaning loop keeps, after what it holds already, the first occurrence of every
  normalized candidate that is new and long enough.
\<close>

lemma clean_loop_eq:
  "clean_loop items acc =
     acc @ first_seen (filter (\<lambda>p. p \<notin> set acc \<and> 11 \<le> length p) (map normalize_phone items))"
proof (induction items arbitrary: acc)
  case Nil
  show ?case by simp
next
  case (Cons item items)
  let ?p = "normalize_phone item"
  let ?rest = "map normalize_phone items"
  show ?case
  proof (cases "?p \<notin> set acc \<and> 11 \<le> length ?p")
    case True
    then have "clean_loop (item # items) acc = clean_loop items (acc @ [?p])"
      by (simp add: Let_def)
    also have "\<dots> = (acc @ [?p]) @
        first_seen (filter (\<lambda>q. q \<notin> set (acc @ [?p]) \<and> 11 \<le> length q) ?rest)"
      by (rule Cons.IH)
    also have "\<dots> = acc @ ?p #
        first_seen (removeAll ?p (filter (\<lambda>q. q \<notin> set acc \<and> 11 \<le> length q) ?rest))"
      by (simp only: removeAll_filter_seen append_assoc append_Cons append_Nil)
    also have "\<dots> = acc @
        first_seen (filter (\<lambda>q. q \<notin> set acc \<and> 11 \<le> length q) (map normalize_phone (item # items)))"
      using True by simp
    finally show ?thesis .
  next
    case False
    with Cons.IH [of acc] show ?thesis by (auto simp: Let_def)
  qed
qed

lemma phone_matches_Nil: "phone_matches [] = []"
  by code_simp

lemma phone_matches_example:
  "phone_matches ''0034612345678'' = [Str ''0034'', Str ''612345678'']"
  by code_simp

text \<open>
  C1, at a mobile number written in groups: the mobile pattern matches all of
  \<open>612 34 56 78\<close>, but the pattern has a group, so \<open>findall\<close> hands over the text of the
  group, which is empty here, in place of the number. The empty text is normalized to
  \<open>+34\<close>, which is too short to be kept, and the extractor returns no phone at all.
\<close>

theorem spaced_mobile_lost:
  "phone_matches ''612 34 56 78'' = [Str ''''] \<and>
   extract_phone_from_text (Some ''612 34 56 78'') = []"
  by code_simp

text \<open>
  C2: the extractor applied to \<open>0034612345678\<close> returns the one-element list of
  \<open>+34612345678\<close>.
\<close>

theorem trunk_prefix_example:
  "extract_phone_from_text (Some ''0034612345678'') = [''+34612345678'']"
  by code_simp

text \<open>
  C5: for every text, each phone of the result has at least 11 characters, and a
  candidate whose normalized form is shorter is left out of the result; the result is a
  plain list, there is no error value.
\<close>

theorem phones_at_least_11:
  "(\<forall>p \<in> set (extract_phone_from_text text). 11 \<le> length p) \<and>
   (\<forall>item \<in> set (phone_matches t).
      length (normalize_phone item) < 11 \<longrightarrow>
        normalize_phone item \<notin> set (extract_phone_from_text (Some t)))"
  by (auto simp: extract_phone_from_text_def set_clean_loop split: option.splits)

theorem phones_at_least_11_witness:
  "''+34612345678'' \<in> set (extract_phone_from_text (Some ''0034612345678'')) \<and>
   11 \<le> length ''+34612345678'' \<and>
   Str ''0034'' \<in> set (phone_matches ''0034612345678'') \<and>
   length (normalize_phone (Str ''0034'')) < 11 \<and>
   normalize_phone (Str ''0034'') \<notin> set (extract_phone_from_text (Some ''0034612345678''))"
proof -
  have r: "extract_phone_from_text (Some ''0034612345678'') = [''+34612345678'']"
    by code_simp
  have m: "Str ''0034'' \<in> set (phone_matches ''0034612345678'')"
    by (simp add: phone_matches_example)
  have n: "length (normalize_phone (Str ''0034'')) < 11"
    by code_simp
  from phones_at_least_11 [of "Some ''0034612345678''" "''0034612345678''"] m n
  have "normalize_phone (Str ''0034'') \<notin> set (extract_phone_from_text (Some ''0034612345678''))"
    by blast
  with r m n show ?thesis by simp
qed

text \<open>
  C6: for every text the result has no duplicates and lists the normalized candidates
  that are long enough in first-seen order, the candidates taken in the order in which
  the three patterns find them. The extractor is a function of the text alone, so two
  runs over the same text give the same list.
\<close>

theorem phones_first_seen:
  "distinct (extract_phone_from_text text) \<and>
   extract_phone_from_text (Some t) =
     first_seen (filter (\<lambda>p. 11 \<le> length p) (map normalize_phone (phone_matches t)))"
  by (simp add: extract_phone_from_text_def clean_loop_eq distinct_first_seen phone_matches_Nil
           split: option.splits)

theorem phones_first_seen_witness:
  "extract_phone_from_text (Some ''612345678 y 912345678 y 612345678'') =
     [''+34612345678'', ''+34912345678''] \<and>
   first_seen (filter (\<lambda>p. 11 \<le> length p)
     (map normalize_phone (phone_matches ''612345678 y 912345678 y 612345678''))) =
     [''+34612345678'', ''+34912345678'']"
proof -
  have "extract_phone_from_text (Some ''612345678 y 912345678 y 612345678'') =
     [''+34612345678'', ''+34912345678'']"
    by code_simp
  with phones_first_seen [of None "''612345678 y 912345678 y 612345678''"]
  show ?thesis by simp
qed

text \<open>
  C9: on the text of the example the email extractor returns the single entry
  \<open>a.b@example.co\<close>, in whatever order the set iterates; and its result never holds a
  string twice.
\<close>

lemma email_matches_example:
  "map fst (finditer True pattern_email ''Contact: a.b@example.co, again a.b@example.co'') =
     [''a.b@example.co'', ''a.b@example.co'']"
  by code_simp

theorem emails_deduplicated:
  "extract_email_from_text h (Some ''Contact: a.b@example.co, again a.b@example.co'') =
     [''a.b@example.co''] \<and>
   distinct (extract_email_from_text h text)"
  by (simp add: extract_email_from_text_def email_matches_example distinct_list_of_set
           list_of_set_def split: option.splits)

text \<open>
  C10: for the text \<open>None\<close> and for the empty text both extractors return the empty
  list.
\<close>

theorem no_text_no_contacts:
  "extract_phone_from_text None = [] \<and> extract_phone_from_text (Some []) = [] \<and>
   extract_email_from_text h None = [] \<and> extract_email_from_text h (Some []) = []"
  by (simp add: extract_phone_from_text_def extract_email_from_text_def)



section \<open>Properties of the search address\<close>


lemma digit_value_digit_char: "d < 10 \<Longrightarrow> digit_value (digit_char d) = d"
proof -
  assume "d < 10"
  then have "d \<in> {0, 1, 2, 3, 4, 5, 6, 7, 8, 9}" by auto
  then show ?thesis by (auto simp: digit_value_def digit_char_def)
qed

lemma digit_char_digit: "d < 10 \<Longrightarrow> digit_char d \<in> set ''0123456789''"
proof -
  assume "d < 10"
  then have "d \<in> {0, 1, 2, 3, 4, 5, 6, 7, 8, 9}" by auto
  then show ?thesis by (auto simp: digit_char_def)
qed

lemma digit_char_nonzero: "d < 10 \<Longrightarrow> 0 < d \<Longrightarrow> digit_char d \<noteq> CHR ''0''"
proof -
  assume "d < 10" "0 < d"
  then have "d \<in> {1, 2, 3, 4, 5, 6, 7, 8, 9}" by auto
  then show ?thesis by (auto simp: digit_char_def)
qed

lemma decimal_value_str_nat: "decimal_value (str_nat n) = n"
proof (induction n rule: str_nat.induct)
  case (1 n)
  show ?case
  proof (cases "n < 10")
    case True
    then show ?thesis by (simp add: str_nat.simps [of n] decimal_value_def digit_value_digit_char)
  next
    case False
    with 1 have "decimal_value (str_nat (n div 10)) = n div 10" by simp
    with False show ?thesis
      by (simp add: str_nat.simps [of n] decimal_value_def digit_value_digit_char)
  qed
qed

lemma str_nat_digits: "set (str_nat n) \<subseteq> set ''0123456789''"
proof (induction n rule: str_nat.induct)
  case (1 n)
  show ?case
  proof (cases "n < 10")
    case True
    then show ?thesis using digit_char_digit [of n] by (simp add: str_nat.simps [of n])
  next
    case False
    with 1 have "set (str_nat (n div 10)) \<subseteq> set ''0123456789''" by simp
    with False show ?thesis
      using digit_char_digit [of "n mod 10"] by (simp add: str_nat.simps [of n])
  qed
qed

lemma str_nat_not_Nil: "str_nat n \<noteq> []"
  by (subst str_nat.simps) simp

lemma str_nat_no_leading_zero: "0 < n \<Longrightarrow> hd (str_nat n) \<noteq> CHR ''0''"
proof (induction n rule: str_nat.induct)
  case (1 n)
  show ?case
  proof (cases "n < 10")
    case True
    then show ?thesis using digit_char_nonzero [of n] 1 by (simp add: str_nat.simps [of n])
  next
    case False
    with 1 have "hd (str_nat (n div 10)) \<noteq> CHR ''0''" by simp
    with False show ?thesis
      by (simp add: str_nat.simps [of n] str_nat_not_Nil)
  qed
qed

text \<open>
  C8: page 1 gives the base address as it is; every page \<open>N > 1\<close> gives the base address
  followed by \<open>pagina-\<close>, the decimal numeral of \<open>N\<close> (digits only, no leading zero, of
  value \<open>N\<close>) and \<open>.htm\<close>; the base \<open>https://x/y/\<close> gives itself at page 1 and
  \<open>https://x/y/pagina-3.htm\<close> at page 3.
\<close>

theorem search_url_pagination:
  "build_search_url base_url 1 = base_url \<and>
   (\<forall>N > 1. \<exists>ds. build_search_url base_url N = base_url @ ''pagina-'' @ ds @ ''.htm'' \<and>
              set ds \<subseteq> set ''0123456789'' \<and> hd ds \<noteq> CHR ''0'' \<and> int (decimal_value ds) = N) \<and>
   build_search_url ''https://x/y/'' 1 = ''https://x/y/'' \<and>
   build_search_url ''https://x/y/'' 3 = ''https://x/y/pagina-3.htm''"
proof -
  have "\<exists>ds. build_search_url base_url N = base_url @ ''pagina-'' @ ds @ ''.htm'' \<and>
              set ds \<subseteq> set ''0123456789'' \<and> hd ds \<noteq> CHR ''0'' \<and> int (decimal_value ds) = N"
    if "1 < N" for N
  proof (intro exI conjI)
    from that show "build_search_url base_url N = base_url @ ''pagina-'' @ str_nat (nat N) @ ''.htm''"
      by (simp add: build_search_url_def str_int_def)
    show "set (str_nat (nat N)) \<subseteq> set ''0123456789''" by (rule str_nat_digits)
    from that show "hd (str_nat (nat N)) \<noteq> CHR ''0''" by (simp add: str_nat_no_leading_zero)
    from that show "int (decimal_value (str_nat (nat N))) = N" by (simp add: decimal_value_str_nat)
  qed
  moreover have "build_search_url ''https://x/y/'' 3 = ''https://x/y/pagina-3.htm''"
    by code_simp
  ultimately show ?thesis by (simp add: build_search_url_def)
qed

theorem search_url_pagination_witness:
  "(1::int) < 12 \<and> build_search_url ''https://x/y/'' 12 = ''https://x/y/pagina-12.htm'' \<and>
   (\<exists>ds. build_search_url ''https://x/y/'' 12 = ''https://x/y/'' @ ''pagina-'' @ ds @ ''.htm'' \<and>
      set ds \<subseteq> set ''0123456789'' \<and> hd ds \<noteq> CHR ''0'' \<and> int (decimal_value ds) = 12)"
proof -
  have "build_search_url ''https://x/y/'' 12 = ''https://x/y/pagina-12.htm''"
    by code_simp
  moreover
  note paged = conjunct1 [OF conjunct2 [OF search_url_pagination [of "''https://x/y/''"]]]
  from paged [rule_format, of 12]
  have "\<exists>ds. build_search_url ''https://x/y/'' 12 = ''https://x/y/'' @ ''pagina-'' @ ds @ ''.htm'' \<and>
      set ds \<subseteq> set ''0123456789'' \<and> hd ds \<noteq> CHR ''0'' \<and> int (decimal_value ds) = 12"
    by simp
  ultimately show ?thesis by simp
qed


section \<open>Properties of the fetchers\<close>

text \<open>
  C4: when the fetch of a detail page fails, or the parse of what was fetched, the
  detail fetcher returns the empty contact bundle and the only effect is one error line
  in the log. The result is a bundle in every case: no exception leaves the function.
\<close>

theorem detail_failure_absorbed:
  assumes "urlopen env property_url w = (Inl e, w') \<or>
           (\<exists>html. urlopen env property_url w = (Inr html, w') \<and> detail_soup env html = Inl e)"
  shows "scrape_property_detail env property_url w =
           (\<lparr>phones = [], emails = []\<rparr>,
            logger env ERROR (''Error scraping detail '' @ property_url @ '': '' @ message e) w')"
  using assms by (auto simp: scrape_property_detail_def detail_try_def)

theorem detail_failure_absorbed_witness:
  "urlopen demo_env ''https://www.idealista.com/inmueble/2/'' [] = (Inl (URLError ''timed out''), []) \<and>
   scrape_property_detail demo_env ''https://www.idealista.com/inmueble/2/'' [] =
     (\<lparr>phones = [], emails = []\<rparr>,
      [(ERROR, ''Error scraping detail https://www.idealista.com/inmueble/2/: timed out'')])"
proof -
  have f: "urlopen demo_env ''https://www.idealista.com/inmueble/2/'' [] =
             (Inl (URLError ''timed out''), [])"
    by (simp add: demo_env_def)
  then have "scrape_property_detail demo_env ''https://www.idealista.com/inmueble/2/'' [] =
      (\<lparr>phones = [], emails = []\<rparr>,
       logger demo_env ERROR (''Error scraping detail '' @ ''https://www.idealista.com/inmueble/2/''
          @ '': '' @ message (URLError ''timed out'')) [])"
    by (intro detail_failure_absorbed disjI1)
  with f show ?thesis by (simp add: demo_env_def)
qed

lemma visit_contacts:
  assumes "\<forall>r \<in> set properties. telefonos r \<noteq> [] \<or> emails_prop r \<noteq> []"
  shows "\<forall>r \<in> set (fst (visit env a url_abs properties w)). telefonos r \<noteq> [] \<or> emails_prop r \<noteq> []"
  using assms by (auto simp: visit_def Let_def split: prod.splits)

lemma scrape_loop_contacts:
  assumes "\<forall>r \<in> set properties. telefonos r \<noteq> [] \<or> emails_prop r \<noteq> []"
  shows "\<forall>r \<in> set (fst (scrape_loop env n articles properties w)).
           telefonos r \<noteq> [] \<or> emails_prop r \<noteq> []"
  using assms
proof (induction articles arbitrary: properties w)
  case Nil
  then show ?case by simp
next
  case (Cons a articles)
  show ?case
  proof (cases "resolve_url env a")
    case None
    with Cons show ?thesis by simp
  next
    case (Some url_abs)
    obtain properties' w' where v: "visit env a url_abs properties w = (properties', w')"
      by (cases "visit env a url_abs properties w")
    with visit_contacts [OF Cons.prems, of env a url_abs w]
    have "\<forall>r \<in> set properties'. telefonos r \<noteq> [] \<or> emails_prop r \<noteq> []" by simp
    from Cons.IH [OF this] Cons.IH [OF Cons.prems] Cons.prems Some v show ?thesis by simp
  qed
qed

text \<open>
  C3: every record of the list that \<open>scrape_idealista_contacts\<close> returns has a phone or
  an email.
\<close>

theorem listings_have_contacts:
  assumes "fst (scrape_idealista_contacts env base_url page max_properties w) = Inr properties"
  shows "\<forall>r \<in> set properties. telefonos r \<noteq> [] \<or> emails_prop r \<noteq> []"
proof -
  obtain r0 w0 where u: "urlopen env (build_search_url base_url page) w = (r0, w0)"
    by (cases "urlopen env (build_search_url base_url page) w")
  with assms obtain html where h: "r0 = Inr html"
    by (cases r0) (auto simp: scrape_idealista_contacts_def)
  with assms u obtain articles where a: "search_soup env html = Inr articles"
    by (cases "search_soup env html") (auto simp: scrape_idealista_contacts_def)
  with assms u h have "properties = fst (scrape_loop env max_properties articles [] w0)"
    by (auto simp: scrape_idealista_contacts_def split: prod.splits)
  with scrape_loop_contacts [of "[]" env max_properties articles w0] show ?thesis by simp
qed

lemma demo_run:
  "scrape_idealista_contacts demo_env ''https://x/y/'' 1 10 [] =
     (Inr [\<lparr>id_prop = Some ''1'', titulo = ''Piso B'', precio = ''90.000'', ubicacion = ''Centro'',
            url = ''https://www.idealista.com/inmueble/1/'', telefonos = [''+34612345678''],
            emails_prop = [], fecha_scraping = ''2024-01-01T00:00:00''\<rparr>],
      [(INFO, ''Scraping contacts for property 1...''),
       (INFO, ''Scraping contacts for property 2...''),
       (ERROR, ''Error scraping detail https://www.idealista.com/inmueble/2/: timed out''),
       (INFO, ''Encontradas 1 propiedades con contactos'')])"
  by code_simp

theorem listings_have_contacts_witness:
  "fst (scrape_idealista_contacts demo_env ''https://x/y/'' 1 10 []) =
     Inr [\<lparr>id_prop = Some ''1'', titulo = ''Piso B'', precio = ''90.000'', ubicacion = ''Centro'',
            url = ''https://www.idealista.com/inmueble/1/'', telefonos = [''+34612345678''],
            emails_prop = [], fecha_scraping = ''2024-01-01T00:00:00''\<rparr>] \<and>
   telefonos \<lparr>id_prop = Some ''1'', titulo = ''Piso B'', precio = ''90.000'', ubicacion = ''Centro'',
            url = ''https://www.idealista.com/inmueble/1/'', telefonos = [''+34612345678''],
            emails_prop = [], fecha_scraping = ''2024-01-01T00:00:00''\<rparr> \<noteq> []"
proof -
  have r: "fst (scrape_idealista_contacts demo_env ''https://x/y/'' 1 10 []) =
     Inr [\<lparr>id_prop = Some ''1'', titulo = ''Piso B'', precio = ''90.000'', ubicacion = ''Centro'',
            url = ''https://www.idealista.com/inmueble/1/'', telefonos = [''+34612345678''],
            emails_prop = [], fecha_scraping = ''2024-01-01T00:00:00''\<rparr>]"
    by (simp add: demo_run)
  from listings_have_contacts [OF r] r show ?thesis by simp
qed


section \<open>The agency filter\<close>

lemma lit_prefix:
  "lit True p s = Some r \<longleftrightarrow> (\<exists>x. s = x @ r \<and> map lower x = map lower p)"
proof (induction p arbitrary: s)
  case Nil
  show ?case by auto
next
  case (Cons a p)
  show ?case
  proof (cases s)
    case Nil
    then show ?thesis by auto
  next
    case (Cons c cs)
    show ?thesis
    proof
      assume "lit True (a # p) s = Some r"
      with Cons have e: "lower a = lower c" and "lit True p cs = Some r"
        by (auto simp: chr_eq_def split: if_splits)
      with Cons.IH obtain x where "cs = x @ r" "map lower x = map lower p" by blast
      with e Cons have "s = (c # x) @ r \<and> map lower (c # x) = map lower (a # p)" by simp
      then show "\<exists>x. s = x @ r \<and> map lower x = map lower (a # p)" by blast
    next
      assume "\<exists>x. s = x @ r \<and> map lower x = map lower (a # p)"
      then obtain x where x: "s = x @ r" "map lower x = map lower (a # p)" by blast
      then obtain d x' where d: "x = d # x'" by (cases x) auto
      with x Cons have "c = d" "cs = x' @ r" "lower d = lower a" "map lower x' = map lower p"
        by auto
      with Cons.IH [of cs] Cons show "lit True (a # p) s = Some r"
        by (auto simp: chr_eq_def)
    qed
  qed
qed

lemma contains_ci_lit:
  "contains_ci word text \<longleftrightarrow> (\<exists>pre suf. text = pre @ suf \<and> lit True word suf \<noteq> None)"
proof
  assume "contains_ci word text"
  then obtain A B where "map lower text = A @ map lower word @ B"
    by (auto simp: contains_ci_def)
  then obtain pre rest where t: "text = pre @ rest" and r: "map lower word @ B = map lower rest"
    by (auto simp: map_eq_append_conv)
  from r obtain x post where "rest = x @ post" "map lower word = map lower x"
    by (auto simp: append_eq_map_conv)
  then have "lit True word rest = Some post" by (auto simp: lit_prefix)
  with t show "\<exists>pre suf. text = pre @ suf \<and> lit True word suf \<noteq> None" by auto
next
  assume "\<exists>pre suf. text = pre @ suf \<and> lit True word suf \<noteq> None"
  then obtain pre suf r where "text = pre @ suf" "lit True word suf = Some r" by auto
  then obtain x where "text = pre @ x @ r" "map lower x = map lower word"
    by (auto simp: lit_prefix)
  then have "map lower text = map lower pre @ map lower word @ map lower r" by simp
  then show "contains_ci word text" unfolding contains_ci_def by blast
qed

lemma search_somewhere:
  "search ci r s \<noteq> None \<longleftrightarrow> (\<exists>pre suf. s = pre @ suf \<and> match_here ci r suf \<noteq> None)"
proof (induction s)
  case Nil
  show ?case by (cases "match_here ci r []") auto
next
  case (Cons c cs)
  show ?case
  proof (cases "match_here ci r (c # cs)")
    case (Some m)
    then have "c # cs = [] @ (c # cs) \<and> match_here ci r (c # cs) \<noteq> None" by simp
    then have "\<exists>pre suf. c # cs = pre @ suf \<and> match_here ci r suf \<noteq> None" by blast
    moreover from Some have "search ci r (c # cs) \<noteq> None" by (cases m) simp
    ultimately show ?thesis by simp
  next
    case None
    then have "search ci r (c # cs) \<noteq> None \<longleftrightarrow>
               (\<exists>pre suf. cs = pre @ suf \<and> match_here ci r suf \<noteq> None)"
      using Cons.IH by simp
    also have "\<dots> \<longleftrightarrow> (\<exists>pre suf. c # cs = pre @ suf \<and> match_here ci r suf \<noteq> None)"
    proof
      assume "\<exists>pre suf. cs = pre @ suf \<and> match_here ci r suf \<noteq> None"
      then obtain pre suf where "c # cs = (c # pre) @ suf" "match_here ci r suf \<noteq> None" by auto
      then show "\<exists>pre suf. c # cs = pre @ suf \<and> match_here ci r suf \<noteq> None" by blast
    next
      assume "\<exists>pre suf. c # cs = pre @ suf \<and> match_here ci r suf \<noteq> None"
      then obtain pre suf where p: "c # cs = pre @ suf" "match_here ci r suf \<noteq> None" by blast
      with None obtain pre' where "pre = c # pre'" by (cases pre) auto
      with p show "\<exists>pre suf. cs = pre @ suf \<and> match_here ci r suf \<noteq> None" by auto
    qed
    finally show ?thesis .
  qed
qed

lemma match_here_agency:
  "match_here True pattern_agency s \<noteq> None \<longleftrightarrow>
     lit True ''agencia'' s \<noteq> None \<or> lit True ''inmobiliaria'' s \<noteq> None"
  unfolding match_here_def pattern_agency_def
  by (cases "lit True ''agencia'' s"; cases "lit True ''inmobiliaria'' s") simp_all

text \<open>The test of the loop says what the specification says.\<close>

lemma is_agency_contains:
  "is_agency a \<longleftrightarrow>
     (\<exists>t. extra_info a = Some t \<and> (contains_ci ''agencia'' t \<or> contains_ci ''inmobiliaria'' t))"
proof (cases "extra_info a")
  case None
  then show ?thesis by (simp add: is_agency_def)
next
  case (Some t)
  have "search True pattern_agency t \<noteq> None \<longleftrightarrow>
          contains_ci ''agencia'' t \<or> contains_ci ''inmobiliaria'' t"
    unfolding search_somewhere match_here_agency contains_ci_lit by blast
  with Some show ?thesis by (simp add: is_agency_def)
qed

lemma scrape_loop_skips:
  assumes "is_agency a"
  shows "scrape_loop env n (removeAll a articles) properties w = scrape_loop env n articles properties w"
proof (induction articles arbitrary: properties w)
  case Nil
  show ?case by simp
next
  case (Cons b articles)
  show ?case
  proof (cases "b = a")
    case True
    have "scrape_loop env n articles properties w = scrape_loop env n (a # articles) properties w"
    proof (cases "int (length properties) \<ge> n")
      case True
      then show ?thesis by (cases articles) simp_all
    next
      case False
      with assms show ?thesis by simp
    qed
    with True Cons.IH show ?thesis by simp
  next
    case False
    then show ?thesis
      by (simp add: Cons.IH split: option.splits prod.splits)
  qed
qed

text \<open>
  C7: a candidate whose subtitle or extra-info text contains \<open>agencia\<close> or
  \<open>inmobiliaria\<close>, letter case aside, is skipped: with it or without it among the
  candidates of the results page, \<open>scrape_idealista_contacts\<close> returns the same list
  and leaves the same world, so no record comes from it, on whatever web, that is,
  whatever its detail page holds.
\<close>

theorem agency_listing_skipped:
  assumes "extra_info a = Some t"
    and "contains_ci ''agencia'' t \<or> contains_ci ''inmobiliaria'' t"
  shows "scrape_idealista_contacts
           (env\<lparr>search_soup := \<lambda>html. map_sum id (removeAll a) (search_soup env html)\<rparr>)
           base_url page max_properties w =
         scrape_idealista_contacts env base_url page max_properties w"
proof -
  from assms have "is_agency a" by (auto simp: is_agency_contains)
  then have skip: "scrape_loop env n (removeAll a articles) properties w' =
      scrape_loop env n articles properties w'" for n articles properties w'
    by (rule scrape_loop_skips)
  have ru: "resolve_url (env\<lparr>search_soup := f\<rparr>) b = resolve_url env b" for f b
    by (simp add: resolve_url_def split: option.splits)
  have "detail_try (env\<lparr>search_soup := f\<rparr>) u w' = detail_try env u w'" for f u w'
    by (simp add: detail_try_def split: prod.splits sum.splits)
  then have "scrape_property_detail (env\<lparr>search_soup := f\<rparr>) u w' =
      scrape_property_detail env u w'" for f u w'
    by (simp add: scrape_property_detail_def split: prod.splits sum.splits)
  then have vi: "visit (env\<lparr>search_soup := f\<rparr>) b u properties w' = visit env b u properties w'"
    for f b u properties w'
    by (simp add: visit_def Let_def split: prod.splits)
  have same: "scrape_loop (env\<lparr>search_soup := f\<rparr>) n articles properties w' =
      scrape_loop env n articles properties w'" for f n articles properties w'
    by (induction articles arbitrary: properties w')
       (simp_all add: ru vi split: option.splits prod.splits)
  show ?thesis
    by (cases "urlopen env (build_search_url base_url page) w";
        cases "fst (urlopen env (build_search_url base_url page) w)")
       (auto simp: scrape_idealista_contacts_def same skip split: sum.splits)
qed

theorem agency_listing_skipped_witness:
  "extra_info demo_agency = Some ''Inmobiliaria XYZ'' \<and>
   contains_ci ''inmobiliaria'' ''Inmobiliaria XYZ'' \<and>
   scrape_idealista_contacts
     (demo_env\<lparr>search_soup := \<lambda>html. map_sum id (removeAll demo_agency) (search_soup demo_env html)\<rparr>)
     ''https://x/y/'' 1 10 [] =
   scrape_idealista_contacts demo_env ''https://x/y/'' 1 10 [] \<and>
   map titulo (projr (fst (scrape_idealista_contacts demo_env ''https://x/y/'' 1 10 []))) = [''Piso B'']"
proof -
  have e: "extra_info demo_agency = Some ''Inmobiliaria XYZ''"
    by (simp add: demo_agency_def)
  have "map lower ''Inmobiliaria XYZ'' = [] @ map lower ''inmobiliaria'' @ '' xyz''"
    by code_simp
  then have c: "contains_ci ''inmobiliaria'' ''Inmobiliaria XYZ''"
    unfolding contains_ci_def by blast
  from agency_listing_skipped [OF e disjI2 [OF c], of demo_env "''https://x/y/''" 1 10 "[]"] e c
  show ?thesis by (simp add: demo_run)
qed


section \<open>The patterns of the program match no empty text\<close>

lemma lit_length: "lit ci l s = Some s' \<Longrightarrow> length s' + length l = length s"
  by (induction ci l s rule: lit.induct) (auto split: if_splits)

lemma rep_consumes:
  "rep p lo hi s k = Some x \<Longrightarrow> \<exists>s'. k s' = Some x \<and> length s' + lo \<le> length s"
proof (induction s arbitrary: lo hi)
  case Nil
  then show ?case by (auto split: if_splits)
next
  case (Cons c cs)
  show ?case
  proof (cases "p c \<and> hi \<noteq> Some 0")
    case True
    show ?thesis
    proof (cases "rep p (lo - 1) (map_option (\<lambda>h. h - 1) hi) cs k")
      case None
      with True Cons.prems show ?thesis by (auto split: if_splits)
    next
      case (Some y)
      with True Cons.prems have "y = x" by simp
      with Some Cons.IH obtain s' where "k s' = Some x" "length s' + (lo - 1) \<le> length cs"
        by blast
      then have "k s' = Some x \<and> length s' + lo \<le> length (c # cs)" by auto
      then show ?thesis by blast
    qed
  next
    case False
    with Cons.prems show ?thesis by (auto split: if_splits)
  qed
qed

lemma bt_consumes:
  "bt ci r s g k = Some x \<Longrightarrow> \<exists>s' g'. k s' g' = Some x \<and> length s' + min_len r \<le> length s"
proof (induction r arbitrary: s g k)
  case (Lit l)
  then obtain s' where "lit ci l s = Some s'" "k s' g = Some x"
    by (auto split: option.splits)
  with lit_length [of ci l s s'] have "k s' g = Some x \<and> length s' + min_len (Lit l) \<le> length s"
    by simp
  then show ?case by blast
next
  case (Cls p)
  then show ?case by (auto split: list.splits if_splits)
next
  case (Seq a b)
  from Seq.prems have "bt ci a s g (\<lambda>s' g'. bt ci b s' g' k) = Some x" by simp
  from Seq.IH(1) [OF this] obtain s1 g1 where
    1: "bt ci b s1 g1 k = Some x" "length s1 + min_len a \<le> length s" by blast
  from Seq.IH(2) [OF 1(1)] obtain s2 g2 where
    "k s2 g2 = Some x" "length s2 + min_len b \<le> length s1" by blast
  with 1 have "k s2 g2 = Some x \<and> length s2 + min_len (Seq a b) \<le> length s" by simp
  then show ?case by blast
next
  case (Alt a b)
  show ?case
  proof (cases "bt ci a s g k")
    case None
    with Alt.prems have "bt ci b s g k = Some x" by simp
    from Alt.IH(2) [OF this] obtain s' g' where
      "k s' g' = Some x" "length s' + min_len b \<le> length s" by blast
    then have "k s' g' = Some x \<and> length s' + min_len (Alt a b) \<le> length s" by simp
    then show ?thesis by blast
  next
    case (Some y)
    with Alt.prems have "bt ci a s g k = Some x" by simp
    from Alt.IH(1) [OF this] obtain s' g' where
      "k s' g' = Some x" "length s' + min_len a \<le> length s" by blast
    then have "k s' g' = Some x \<and> length s' + min_len (Alt a b) \<le> length s" by simp
    then show ?thesis by blast
  qed
next
  case (Opt a)
  show ?case
  proof (cases "bt ci a s g k")
    case None
    with Opt.prems have "k s g = Some x \<and> length s + min_len (Opt a) \<le> length s" by simp
    then show ?thesis by blast
  next
    case (Some y)
    with Opt.prems have "bt ci a s g k = Some x" by simp
    from Opt.IH [OF this] obtain s' g' where
      "k s' g' = Some x" "length s' + min_len a \<le> length s" by blast
    then have "k s' g' = Some x \<and> length s' + min_len (Opt a) \<le> length s" by simp
    then show ?thesis by blast
  qed
next
  case (Rep p lo hi)
  then have "rep (cls ci p) lo hi s (\<lambda>s'. k s' g) = Some x" by simp
  from rep_consumes [OF this] show ?case by auto
next
  case (Grp n a)
  then have "bt ci a s g (\<lambda>s' g'. k s' (g'(n \<mapsto> take (length s - length s') s))) = Some x"
    by simp
  from Grp.IH [OF this] show ?case by auto
qed

lemma match_here_consumes:
  "match_here ci r s = Some (s', g) \<Longrightarrow> length s' + min_len r \<le> length s"
  unfolding match_here_def by (drule bt_consumes) auto

lemma program_patterns_min_len:
  "min_len pattern_mobile = 9" "min_len pattern_landline = 9" "min_len pattern_nine = 9"
  "min_len pattern_email = 6" "min_len pattern_agency = 7" "min_len pattern_inmueble = 12"
  by (simp_all add: pattern_mobile_def pattern_landline_def pattern_nine_def pattern_email_def
        pattern_agency_def pattern_inmueble_def prefix_group_def cat_def)


text \<open>
  So the scan of \<open>finditer\<close> never meets an empty match with these patterns: each
  match it records has read at least one character.
\<close>

lemma finditer_consuming:
  assumes "0 < min_len r"
  shows "finditer ci r s =
     (case match_here ci r s of
        Some (s', g) \<Rightarrow> (take (length s - length s') s, g) # finditer ci r s'
      | None \<Rightarrow> (case s of [] \<Rightarrow> [] | c # cs \<Rightarrow> finditer ci r cs))"
proof (cases "match_here ci r s")
  case None
  then show ?thesis by (subst finditer.simps) simp
next
  case (Some m)
  obtain s' g where m: "m = (s', g)" by (cases m)
  with Some assms match_here_consumes [of ci r s s' g] have "length s' < length s" by simp
  with Some m show ?thesis by (subst finditer.simps) simp
qed

end
